theory Spec2Isabelle
  imports Main
begin

section \<open>JavaScript values\<close>

text \<open>
  The bodies that axios hands to the components (\<open>res.data\<close>) are parsed JSON and are
  passed on untyped. Numbers are kept as integers: the program does no arithmetic on
  them. An object is the list of its properties after parsing, so every key occurs once.
  \<open>undefined\<close> is not a JSON value; a value that may be \<open>undefined\<close> is a
  \<open>json option\<close> with \<open>None\<close> for \<open>undefined\<close>.
\<close>

datatype json =
    JNull
  | JBool bool
  | JNum int
  | JStr string
  | JArr "json list"
  | JObj "(string \<times> json) list"

type_synonym js_value = "json option"

text \<open>Truthiness, as \<open>!x\<close>, \<open>x && y\<close> and \<open>x || y\<close> test it.\<close>

fun truthy :: "json \<Rightarrow> bool" where
  "truthy JNull = False"
| "truthy (JBool b) = b"
| "truthy (JNum n) = (n \<noteq> 0)"
| "truthy (JStr s) = (s \<noteq> [])"
| "truthy (JArr xs) = True"
| "truthy (JObj kvs) = True"

text \<open>\<open>Array.isArray\<close>.\<close>

fun isArray :: "json \<Rightarrow> bool" where
  "isArray (JArr xs) = True"
| "isArray v = False"

text \<open>
  Reading a property \<open>v.k\<close> of a value that is neither \<open>null\<close> nor \<open>undefined\<close>, for
  the property names this program reads (\<open>shortUrl\<close>, \<open>originalUrl\<close>, \<open>clicks\<close>,
  \<open>_id\<close>): an object gives the property or \<open>undefined\<close>; a string, number, boolean or
  array has none of them.
\<close>

fun js_prop :: "json \<Rightarrow> string \<Rightarrow> js_value" where
  "js_prop (JObj kvs) k = map_of kvs k"
| "js_prop v k = None"

section \<open>The HTTP client\<close>

text \<open>
  What the network gives back to a request: a response with a status and a parsed body,
  or no response at all. With its default \<open>validateStatus\<close> axios resolves the promise
  with the response for a status from 200 to 299 and rejects it otherwise.
\<close>

datatype http_outcome = Response nat json | NetworkFailure

datatype axios_error = BadStatus nat | NetworkError

fun axios_settle :: "http_outcome \<Rightarrow> axios_error + json" where
  "axios_settle (Response st body) =
     (if 200 \<le> st \<and> st < 300 then Inr body else Inl (BadStatus st))"
| "axios_settle NetworkFailure = Inl NetworkError"

section \<open>UrlShortenerForm\<close>

text \<open>
  The five \<open>useState\<close> cells of the component, followed by what the component has
  handed to its environment: the bodies \<open>{ longUrl }\<close> of the POST requests to
  \<open>${API_URL}/api/shorten\<close> that are in flight, the arguments of the
  \<open>navigator.clipboard.writeText\<close> calls whose promise has not settled, the system
  clipboard (the value last written, as it was passed to \<open>writeText\<close>), the remaining
  milliseconds of each pending \<open>setTimeout\<close>, and what was logged with \<open>console.error\<close>.
\<close>

datatype logged = LogAxios axios_error | LogClipboard

record form =
  longUrl :: string
  shortUrl :: json
  loading :: bool
  error :: string
  copySuccess :: string
  requests :: "string list"
  writes :: "js_value list"
  clipboard :: js_value
  timers :: "nat list"
  console :: "logged list"

definition UrlShortenerForm_init :: "js_value \<Rightarrow> form" where
  "UrlShortenerForm_init clip =
     \<lparr> longUrl = [], shortUrl = JNull, loading = False, error = [], copySuccess = [],
       requests = [], writes = [], clipboard = clip, timers = [], console = [] \<rparr>"

text \<open>
  A handler is the list of the statements it executes, in order. \<open>SetTimeout ms\<close> is
  \<open>setTimeout(() => setCopySuccess(''), ms)\<close>, the only timer of the program.
\<close>

datatype effect =
    PreventDefault
  | SetLongUrl string
  | SetShortUrl json
  | SetLoading bool
  | SetError string
  | SetCopySuccess string
  | AxiosPost string
  | WriteText js_value
  | SetTimeout nat
  | ConsoleError logged

fun perform :: "form \<Rightarrow> effect \<Rightarrow> form" where
  "perform s PreventDefault = s"
| "perform s (SetLongUrl v) = s\<lparr>longUrl := v\<rparr>"
| "perform s (SetShortUrl v) = s\<lparr>shortUrl := v\<rparr>"
| "perform s (SetLoading b) = s\<lparr>loading := b\<rparr>"
| "perform s (SetError m) = s\<lparr>error := m\<rparr>"
| "perform s (SetCopySuccess m) = s\<lparr>copySuccess := m\<rparr>"
| "perform s (AxiosPost body) = s\<lparr>requests := requests s @ [body]\<rparr>"
| "perform s (WriteText t) = s\<lparr>writes := writes s @ [t]\<rparr>"
| "perform s (SetTimeout ms) = s\<lparr>timers := timers s @ [ms]\<rparr>"
| "perform s (ConsoleError l) = s\<lparr>console := console s @ [l]\<rparr>"

definition run :: "effect list \<Rightarrow> form \<Rightarrow> form" where
  "run effs s = foldl perform s effs"

subsection \<open>handleSubmit\<close>

text \<open>
  \<open>handleSubmit\<close> up to its \<open>await\<close>, for the input text \<open>lu\<close> that the handler's
  closure holds: the three clearing statements, the check \<open>!longUrl\<close> with its early
  return, then the in-flight flag and the request.
\<close>

definition handleSubmit :: "string \<Rightarrow> effect list" where
  "handleSubmit lu =
     [PreventDefault, SetError [], SetShortUrl JNull, SetCopySuccess []] @
     (if lu = [] then [SetError ''Please enter a URL to shorten.'']
      else [SetLoading True, AxiosPost lu])"

text \<open>The rest of \<open>handleSubmit\<close>: \<open>try\<close> or \<open>catch\<close>, then \<open>finally\<close>.\<close>

definition handleSubmit_settled :: "axios_error + json \<Rightarrow> effect list" where
  "handleSubmit_settled r =
     (case r of
        Inr data \<Rightarrow> [SetShortUrl data]
      | Inl err \<Rightarrow>
          [SetError ''Failed to shorten URL. Please check the link and try again.'',
           ConsoleError (LogAxios err)]) @
     [SetLoading False]"

subsection \<open>copyToClipboard\<close>

definition copyToClipboard :: "js_value \<Rightarrow> effect list" where
  "copyToClipboard text = [WriteText text]"

text \<open>The two callbacks given to \<open>then\<close>: the write succeeded, or it failed.\<close>

definition copyToClipboard_settled :: "bool \<Rightarrow> effect list" where
  "copyToClipboard_settled ok =
     (if ok then [SetCopySuccess ''Copied!'', SetTimeout 2000]
      else [SetCopySuccess ''Failed to copy!'', ConsoleError LogClipboard])"

definition timer_callback :: "effect list" where
  "timer_callback = [SetCopySuccess []]"

subsection \<open>The events of the form\<close>

text \<open>
  What can happen to the mounted component. \<open>Edit v\<close> is the input's \<open>onChange\<close>;
  \<open>Submit\<close> is the form's \<open>onSubmit\<close>, which the browser does not deliver while the
  submit button is rendered with \<open>disabled={loading}\<close>; \<open>PostSettled i out\<close> is the
  answer to the \<open>i\<close>-th request in flight; \<open>CopyClick\<close> is the copy button, rendered
  only under \<open>shortUrl && (...)\<close>; \<open>ClipSettled i ok\<close> settles the \<open>i\<close>-th pending
  clipboard write; \<open>Elapse d\<close> lets \<open>d\<close> milliseconds pass, and the timers that are due
  run their callback (a timer runs exactly when it is due).
\<close>

datatype event =
    Edit string
  | Submit
  | PostSettled nat http_outcome
  | CopyClick
  | ClipSettled nat bool
  | Elapse nat

definition remove_nth :: "nat \<Rightarrow> 'a list \<Rightarrow> 'a list" where
  "remove_nth i xs = take i xs @ drop (Suc i) xs"

text \<open>
  An event is delivered in two parts: what the environment does itself (a settled
  request or clipboard write leaves the pending ones, a successful write changes the
  clipboard, time passing shortens the timers and drops the ones that fire), and the
  statements of the handler or callback that the component then runs.
  \<open>None\<close>: the event cannot happen in this state.
\<close>

fun dispatch :: "form \<Rightarrow> event \<Rightarrow> (form \<times> effect list) option" where
  "dispatch s (Edit v) = Some (s, [SetLongUrl v])"
| "dispatch s Submit =
     (if loading s then None else Some (s, handleSubmit (longUrl s)))"
| "dispatch s (PostSettled i out) =
     (if i < length (requests s)
      then Some (s\<lparr>requests := remove_nth i (requests s)\<rparr>,
                 handleSubmit_settled (axios_settle out))
      else None)"
| "dispatch s CopyClick =
     (if truthy (shortUrl s)
      then Some (s, copyToClipboard (js_prop (shortUrl s) ''shortUrl''))
      else None)"
| "dispatch s (ClipSettled i ok) =
     (if i < length (writes s)
      then Some (if ok
                 then s\<lparr>clipboard := writes s ! i, writes := remove_nth i (writes s)\<rparr>
                 else s\<lparr>writes := remove_nth i (writes s)\<rparr>,
                 copyToClipboard_settled ok)
      else None)"
| "dispatch s (Elapse d) =
     Some (s\<lparr>timers := map (\<lambda>t. t - d) (filter (\<lambda>t. d < t) (timers s))\<rparr>,
           concat (map (\<lambda>t. timer_callback) (filter (\<lambda>t. t \<le> d) (timers s))))"

definition ui_step :: "form \<Rightarrow> event \<Rightarrow> form option" where
  "ui_step s e =
     (case dispatch s e of None \<Rightarrow> None | Some (s0, effs) \<Rightarrow> Some (run effs s0))"

fun run_events :: "form \<Rightarrow> event list \<Rightarrow> form option" where
  "run_events s [] = Some s"
| "run_events s (e # es) =
     (case ui_step s e of None \<Rightarrow> None | Some s' \<Rightarrow> run_events s' es)"

text \<open>The events that deliver the answer to a POST request.\<close>

fun is_post_settled :: "event \<Rightarrow> bool" where
  "is_post_settled (PostSettled i out) = True"
| "is_post_settled e = False"

text \<open>The statements that store a result or an error.\<close>

fun sets_outcome :: "effect \<Rightarrow> bool" where
  "sets_outcome (SetShortUrl v) = True"
| "sets_outcome (SetError m) = True"
| "sets_outcome x = False"

text \<open>At most one of result and error is stored.\<close>

definition exclusive :: "form \<Rightarrow> bool" where
  "exclusive s = (shortUrl s = JNull \<or> error s = [])"

text \<open>
  The two phases of the shortening flow. While the request for \<open>lu\<close> is awaited the
  flag is set, that request is the only one in flight and nothing is stored. Otherwise
  nothing is in flight and at most one of result and error is stored.
\<close>

definition awaiting :: "string \<Rightarrow> form \<Rightarrow> bool" where
  "awaiting lu s =
     (loading s \<and> requests s = [lu] \<and> error s = [] \<and> shortUrl s = JNull)"

definition flow_inv :: "form \<Rightarrow> bool" where
  "flow_inv s =
     (if loading s then length (requests s) = 1 \<and> error s = [] \<and> shortUrl s = JNull
      else requests s = [] \<and> exclusive s)"

section \<open>AdminPage\<close>

text \<open>
  The three \<open>useState\<close> cells of the component, whether the GET request to
  \<open>${API_URL}/api/urls\<close> of \<open>fetchUrls\<close> is in flight, and what was logged.
\<close>

record admin =
  urls :: json
  loading :: bool
  error :: string
  fetching :: bool
  console :: "logged list"

text \<open>
  The component after its first render and the run of its effect, which has an empty
  dependency list and so runs once per mount: the initial cells, the request issued.
\<close>

definition AdminPage_mount :: admin where
  "AdminPage_mount =
     \<lparr> urls = JArr [], loading = True, error = [], fetching = True, console = [] \<rparr>"

text \<open>\<open>fetchUrls\<close> from its \<open>await\<close> on: \<open>try\<close> or \<open>catch\<close>, then \<open>finally\<close>.\<close>

definition fetchUrls_settled :: "axios_error + json \<Rightarrow> admin \<Rightarrow> admin" where
  "fetchUrls_settled r s =
     (case r of
        Inr data \<Rightarrow>
          (if isArray data then s\<lparr>urls := data\<rparr>
           else s\<lparr>error := ''Received an invalid format from the server.''\<rparr>)
      | Inl err \<Rightarrow>
          s\<lparr>error := ''Failed to fetch URL list.'',
            console := console s @ [LogAxios err]\<rparr>)
     \<lparr>loading := False\<rparr>"

datatype admin_event = FetchSettled http_outcome

fun admin_step :: "admin \<Rightarrow> admin_event \<Rightarrow> admin option" where
  "admin_step s (FetchSettled out) =
     (if fetching s
      then Some (fetchUrls_settled (axios_settle out) (s\<lparr>fetching := False\<rparr>))
      else None)"

fun admin_run :: "admin \<Rightarrow> admin_event list \<Rightarrow> admin option" where
  "admin_run s [] = Some s"
| "admin_run s (e # es) =
     (case admin_step s e of None \<Rightarrow> None | Some s' \<Rightarrow> admin_run s' es)"

subsection \<open>Rendering\<close>

text \<open>
  A table row as the component builds it: the empty-state row, or the \<open><tr>\<close> element
  of one list entry with its \<open>key\<close> (\<open>url._id\<close>) and the values put into the three
  cells (\<open>url.originalUrl\<close>, \<open>url.shortUrl\<close>, \<open>url.clicks\<close>; the two links take the
  same value as \<open>href\<close> and as child).

  The page can fail in two ways. Evaluating \<open>url._id\<close> for an entry that is \<open>null\<close>
  raises a TypeError inside the callback of \<open>urls.map\<close>, before the component returns.
  When the component has returned, React renders the children of the elements and
  raises for a child that is an object (\<open>Objects are not valid as a React child\<close>).
  \<open>NotAnArray\<close> marks the table body computed from a list that is not an array, where
  \<open>urls.length\<close> and \<open>urls.map\<close> are not the array's.
\<close>

datatype row = EmptyState | Row js_value js_value js_value js_value

datatype render_error = TypeError | InvalidChild | NotAnArray

definition row_of :: "json \<Rightarrow> row" where
  "row_of url =
     Row (js_prop url ''_id'') (js_prop url ''originalUrl'')
         (js_prop url ''shortUrl'') (js_prop url ''clicks'')"

text \<open>The callback of \<open>urls.map\<close> on one entry.\<close>

fun tr :: "json \<Rightarrow> render_error + row" where
  "tr JNull = Inl TypeError"
| "tr url = Inr (row_of url)"

text \<open>\<open>urls.map\<close> with a callback that may raise.\<close>

fun map_rows :: "json list \<Rightarrow> render_error + row list" where
  "map_rows [] = Inr []"
| "map_rows (url # rest) =
     (case tr url of
        Inl e \<Rightarrow> Inl e
      | Inr r \<Rightarrow> (case map_rows rest of Inl e \<Rightarrow> Inl e | Inr rs \<Rightarrow> Inr (r # rs)))"

fun tbody :: "json \<Rightarrow> render_error + row list" where
  "tbody (JArr us) = (if length us > 0 then map_rows us else Inr [EmptyState])"
| "tbody v = Inl NotAnArray"

text \<open>
  What React accepts as a child: a string or a number is shown as text; a boolean,
  \<open>null\<close> and \<open>undefined\<close> show nothing; an array is the list of its entries, each of
  them a child; an object is refused. An attribute (\<open>key\<close>, \<open>href\<close>) takes any value.
\<close>

fun child_ok :: "json \<Rightarrow> bool" where
  "child_ok (JObj kvs) = False"
| "child_ok (JArr vs) = (\<forall>v \<in> set vs. child_ok v)"
| "child_ok v = True"

fun cell_ok :: "js_value \<Rightarrow> bool" where
  "cell_ok None = True"
| "cell_ok (Some v) = child_ok v"

fun row_ok :: "row \<Rightarrow> bool" where
  "row_ok EmptyState = True"
| "row_ok (Row k original short clicks) = (cell_ok original \<and> cell_ok short \<and> cell_ok clicks)"

definition render_rows :: "row list \<Rightarrow> render_error + row list" where
  "render_rows rows = (if list_all row_ok rows then Inr rows else Inl InvalidChild)"

datatype view = LoadingText | ErrorText string | LinkAnalytics "row list"

text \<open>The component function, and React's rendering of the table it returns.\<close>

definition AdminPage :: "admin \<Rightarrow> render_error + view" where
  "AdminPage s =
     (if loading s then Inr LoadingText
      else if error s \<noteq> [] then Inr (ErrorText (error s))
      else (case tbody (urls s) of
              Inl e \<Rightarrow> Inl e
            | Inr elements \<Rightarrow>
                (case render_rows elements of
                   Inl e \<Rightarrow> Inl e
                 | Inr rows \<Rightarrow> Inr (LinkAnalytics rows))))"

subsection \<open>URL records\<close>



section \<open>Properties of the shortening flow\<close>

lemma run_Nil [simp]: "run [] s = s"
  by (simp add: run_def)

lemma run_Cons [simp]: "run (e # es) s = run es (perform s e)"
  by (simp add: run_def)

lemma run_append: "run (xs @ ys) s = run ys (run xs s)"
  by (simp add: run_def)

lemma ui_step_simps [simp]:
  "ui_step s (Edit v) = Some (run [SetLongUrl v] s)"
  "ui_step s Submit =
     (if form.loading s then None else Some (run (handleSubmit (longUrl s)) s))"
  "ui_step s (PostSettled i out) =
     (if i < length (requests s)
      then Some (run (handleSubmit_settled (axios_settle out))
                   (s\<lparr>requests := remove_nth i (requests s)\<rparr>))
      else None)"
  "ui_step s CopyClick =
     (if truthy (shortUrl s)
      then Some (run (copyToClipboard (js_prop (shortUrl s) ''shortUrl'')) s)
      else None)"
  "ui_step s (ClipSettled i ok) =
     (if i < length (writes s)
      then Some (run (copyToClipboard_settled ok)
                   (if ok
                    then s\<lparr>clipboard := writes s ! i, writes := remove_nth i (writes s)\<rparr>
                    else s\<lparr>writes := remove_nth i (writes s)\<rparr>))
      else None)"
  by (simp_all add: ui_step_def)

subsection \<open>Statements that touch neither result nor error\<close>

lemma run_frame:
  assumes "\<forall>x \<in> set effs. \<not> sets_outcome x"
  shows "shortUrl (run effs s) = shortUrl s \<and> form.error (run effs s) = form.error s"
  using assms
proof (induction effs arbitrary: s)
  case Nil
  then show ?case by simp
next
  case (Cons x xs)
  then show ?case
    by (cases x) simp_all
qed

lemma fired_fields:
  "longUrl (run (concat (map (\<lambda>t. timer_callback) ts)) s) = longUrl s"
  "shortUrl (run (concat (map (\<lambda>t. timer_callback) ts)) s) = shortUrl s"
  "form.loading (run (concat (map (\<lambda>t. timer_callback) ts)) s) = form.loading s"
  "form.error (run (concat (map (\<lambda>t. timer_callback) ts)) s) = form.error s"
  "requests (run (concat (map (\<lambda>t. timer_callback) ts)) s) = requests s"
  by (induction ts arbitrary: s; simp add: timer_callback_def)+

lemma fired_copySuccess:
  "copySuccess (run (concat (map (\<lambda>t. timer_callback) ts)) s) =
     (if ts = [] then copySuccess s else [])"
  by (induction ts arbitrary: s) (simp_all add: timer_callback_def)

lemma fired_clipboard:
  "clipboard (run (concat (map (\<lambda>t. timer_callback) ts)) s) = clipboard s"
  by (induction ts arbitrary: s) (simp_all add: timer_callback_def)

lemma elapse_fields:
  assumes "ui_step s (Elapse d) = Some s'"
  shows "longUrl s' = longUrl s" "shortUrl s' = shortUrl s"
    "form.loading s' = form.loading s" "form.error s' = form.error s"
    "requests s' = requests s"
  using assms by (auto simp: ui_step_def fired_fields)

subsection \<open>The two phases\<close>

lemma remove_nth_single [simp]: "remove_nth 0 [x] = []"
  by (simp add: remove_nth_def)

lemma init_inv: "flow_inv (UrlShortenerForm_init c)"
  by (simp add: flow_inv_def exclusive_def UrlShortenerForm_init_def)

lemma flow_inv_loading:
  "flow_inv s \<Longrightarrow> form.loading s \<Longrightarrow> \<exists>lu. awaiting lu s"
  by (cases "requests s") (auto simp: flow_inv_def awaiting_def)

lemma awaiting_inv: "awaiting lu s \<Longrightarrow> flow_inv s"
  by (simp add: flow_inv_def awaiting_def)

lemma submit_awaiting:
  assumes "ui_step s Submit = Some s'" and "longUrl s \<noteq> []" and "flow_inv s"
  shows "awaiting (longUrl s) s'"
  using assms
  by (auto simp: flow_inv_def awaiting_def handleSubmit_def split: if_splits)

lemma awaiting_step:
  assumes "awaiting lu s" and "ui_step s e = Some s'" and "\<not> is_post_settled e"
  shows "awaiting lu s'"
proof (cases e)
  case (Elapse d)
  with assms(2) elapse_fields [of s d s'] assms(1) show ?thesis
    by (simp add: awaiting_def)
qed (use assms in \<open>auto simp: awaiting_def copyToClipboard_def copyToClipboard_settled_def
        split: if_splits\<close>)

lemma awaiting_run:
  assumes "awaiting lu s" and "run_events s es = Some s'"
    and "\<forall>e \<in> set es. \<not> is_post_settled e"
  shows "awaiting lu s'"
  using assms
proof (induction es arbitrary: s)
  case Nil
  then show ?case by simp
next
  case (Cons e es)
  from Cons.prems(2) obtain s1 where
    s1: "ui_step s e = Some s1" and rest: "run_events s1 es = Some s'"
    by (auto split: option.splits)
  from Cons.prems(1) s1 Cons.prems(3) have "awaiting lu s1"
    by (auto intro: awaiting_step)
  with rest Cons.prems(3) show ?case
    by (auto intro: Cons.IH)
qed

lemma flow_inv_step:
  assumes "flow_inv s" and "ui_step s e = Some s'"
  shows "flow_inv s'"
proof (cases "is_post_settled e")
  case False
  show ?thesis
  proof (cases "form.loading s")
    case True
    with assms(1) obtain lu where "awaiting lu s"
      by (auto dest: flow_inv_loading)
    from awaiting_step [OF this assms(2) False] show ?thesis
      by (rule awaiting_inv)
  next
    case idle: False
    show ?thesis
    proof (cases e)
      case (Elapse d)
      with assms idle elapse_fields [of s d s'] show ?thesis
        by (simp add: flow_inv_def exclusive_def)
    qed (use assms idle False in \<open>auto simp: flow_inv_def exclusive_def awaiting_def
            handleSubmit_def copyToClipboard_def copyToClipboard_settled_def
            split: if_splits\<close>)
  qed
next
  case True
  then obtain i out where e: "e = PostSettled i out"
    by (cases e) auto
  with assms(2) have i: "i < length (requests s)"
    by (auto split: if_splits)
  then have "form.loading s"
    using assms(1) by (auto simp: flow_inv_def split: if_splits)
  with assms(1) obtain lu where aw: "awaiting lu s"
    by (auto dest: flow_inv_loading)
  with i have "i = 0"
    by (simp add: awaiting_def)
  with assms(2) e aw show ?thesis
    by (cases "axios_settle out")
       (auto simp: flow_inv_def exclusive_def awaiting_def handleSubmit_settled_def)
qed

lemma flow_inv_run:
  assumes "flow_inv s" and "run_events s es = Some s'"
  shows "flow_inv s'"
  using assms
proof (induction es arbitrary: s)
  case Nil
  then show ?case by simp
next
  case (Cons e es)
  then show ?case
    by (auto split: option.splits dest: flow_inv_step)
qed

lemma reachable_inv:
  "run_events (UrlShortenerForm_init c) es = Some s \<Longrightarrow> flow_inv s"
  using flow_inv_run [OF init_inv] .

lemma flow_inv_exclusive: "flow_inv s \<Longrightarrow> exclusive s"
  by (auto simp: flow_inv_def exclusive_def split: if_splits)

subsection \<open>Submission\<close>

lemma take_frame:
  assumes "\<forall>x \<in> set effs. \<not> sets_outcome x"
  shows "exclusive (run (take n effs) s) = exclusive s"
proof -
  from assms have "\<forall>x \<in> set (take n effs). \<not> sets_outcome x"
    by (auto dest: in_set_takeD)
  from run_frame [OF this] show ?thesis
    by (simp add: exclusive_def)
qed

lemma handleSubmit_exclusive:
  "exclusive s \<Longrightarrow> exclusive (run (take n (handleSubmit lu)) s)"
  by (simp add: handleSubmit_def exclusive_def take_Cons')

lemma settled_exclusive:
  "awaiting lu s \<Longrightarrow>
   exclusive (run (take n (handleSubmit_settled r)) (s\<lparr>requests := rs\<rparr>))"
  by (cases r) (simp_all add: handleSubmit_settled_def exclusive_def awaiting_def take_Cons')

lemma handler_exclusive:
  assumes "flow_inv s" and "dispatch s e = Some (s0, effs)"
  shows "exclusive (run (take n effs) s0)"
proof (cases e)
  case (Edit v)
  with assms(2) take_frame [of effs n s] flow_inv_exclusive [OF assms(1)] show ?thesis
    by auto
next
  case Submit
  with assms(2) handleSubmit_exclusive [OF flow_inv_exclusive [OF assms(1)]] show ?thesis
    by (auto split: if_splits)
next
  case (PostSettled i out)
  with assms(2) have i: "i < length (requests s)"
    by (auto split: if_splits)
  then have "form.loading s"
    using assms(1) by (auto simp: flow_inv_def split: if_splits)
  with assms(1) obtain lu where "awaiting lu s"
    by (auto dest: flow_inv_loading)
  from settled_exclusive [OF this] assms(2) PostSettled show ?thesis
    by (auto split: if_splits)
next
  case CopyClick
  with assms(2) take_frame [of effs n s] flow_inv_exclusive [OF assms(1)] show ?thesis
    by (auto simp: copyToClipboard_def split: if_splits)
next
  case (ClipSettled i ok)
  from assms(2) ClipSettled have effs: "\<forall>x \<in> set effs. \<not> sets_outcome x"
    by (auto simp: copyToClipboard_settled_def split: if_splits)
  from assms(2) ClipSettled flow_inv_exclusive [OF assms(1)] have "exclusive s0"
    by (auto simp: exclusive_def split: if_splits)
  with take_frame [OF effs] show ?thesis
    by simp
next
  case (Elapse d)
  from assms(2) Elapse have effs: "\<forall>x \<in> set effs. \<not> sets_outcome x"
    by (auto simp: timer_callback_def)
  from assms(2) Elapse flow_inv_exclusive [OF assms(1)] have "exclusive s0"
    by (auto simp: exclusive_def)
  with take_frame [OF effs] show ?thesis
    by simp
qed

text \<open>
  C1. In every state the form reaches from its initial state, result and error are not
  both stored, and they are not both stored after any statement of the handler of any
  event delivered there. Every submission accepted there runs the clearing statements
  first: \<open>handleSubmit\<close> splits into a prefix after which error, result and copy
  acknowledgment are empty and no request has been added, and a rest that is either the
  validation failure or the in-flight flag followed by the request.
\<close>

theorem result_error_exclusive:
  assumes "run_events (UrlShortenerForm_init c) es = Some s"
  shows "exclusive s
       \<and> (\<forall>e s0 effs n. dispatch s e = Some (s0, effs) \<longrightarrow>
            exclusive (run (take n effs) s0))
       \<and> (\<forall>s'. ui_step s Submit = Some s' \<longrightarrow>
            (\<exists>pre post. handleSubmit (longUrl s) = pre @ post
               \<and> s' = run post (run pre s)
               \<and> form.error (run pre s) = []
               \<and> shortUrl (run pre s) = JNull
               \<and> copySuccess (run pre s) = []
               \<and> requests (run pre s) = requests s
               \<and> (post = [SetError ''Please enter a URL to shorten.'']
                  \<or> post = [SetLoading True, AxiosPost (longUrl s)])))"
proof (intro conjI allI impI)
  from reachable_inv [OF assms] show "exclusive s"
    by (rule flow_inv_exclusive)
next
  fix e s0 effs n
  assume "dispatch s e = Some (s0, effs)"
  from handler_exclusive [OF reachable_inv [OF assms] this]
  show "exclusive (run (take n effs) s0)" .
next
  fix s'
  assume step: "ui_step s Submit = Some s'"
  let ?pre = "[PreventDefault, SetError [], SetShortUrl JNull, SetCopySuccess []]"
  let ?post = "if longUrl s = [] then [SetError ''Please enter a URL to shorten.'']
               else [SetLoading True, AxiosPost (longUrl s)]"
  have split: "handleSubmit (longUrl s) = ?pre @ ?post"
    by (simp add: handleSubmit_def)
  from step have "s' = run (handleSubmit (longUrl s)) s"
    by (simp split: if_splits)
  then have s': "s' = run ?post (run ?pre s)"
    by (simp only: split run_append)
  have cleared: "form.error (run ?pre s) = []" "shortUrl (run ?pre s) = JNull"
    "copySuccess (run ?pre s) = []" "requests (run ?pre s) = requests s"
    by simp_all
  have "?post = [SetError ''Please enter a URL to shorten.'']
        \<or> ?post = [SetLoading True, AxiosPost (longUrl s)]"
    by simp
  with split s' cleared
  show "\<exists>pre post. handleSubmit (longUrl s) = pre @ post
               \<and> s' = run post (run pre s)
               \<and> form.error (run pre s) = []
               \<and> shortUrl (run pre s) = JNull
               \<and> copySuccess (run pre s) = []
               \<and> requests (run pre s) = requests s
               \<and> (post = [SetError ''Please enter a URL to shorten.'']
                  \<or> post = [SetLoading True, AxiosPost (longUrl s)])"
    by blast
qed

theorem result_error_exclusive_witness:
  "run_events (UrlShortenerForm_init None)
     [Edit ''https://example.com'', Submit, PostSettled 0 (Response 500 JNull)]
   = Some ((UrlShortenerForm_init None)
       \<lparr>longUrl := ''https://example.com'',
        form.error := ''Failed to shorten URL. Please check the link and try again.'',
        form.console := [LogAxios (BadStatus 500)]\<rparr>)
   \<and> shortUrl ((UrlShortenerForm_init None)
       \<lparr>longUrl := ''https://example.com'',
        form.error := ''Failed to shorten URL. Please check the link and try again.'',
        form.console := [LogAxios (BadStatus 500)]\<rparr>) = JNull"
proof -
  have r: "run_events (UrlShortenerForm_init None)
     [Edit ''https://example.com'', Submit, PostSettled 0 (Response 500 JNull)]
   = Some ((UrlShortenerForm_init None)
       \<lparr>longUrl := ''https://example.com'',
        form.error := ''Failed to shorten URL. Please check the link and try again.'',
        form.console := [LogAxios (BadStatus 500)]\<rparr>)"
    by (simp add: UrlShortenerForm_init_def handleSubmit_def handleSubmit_settled_def)
  from result_error_exclusive [OF r] r show ?thesis
    by (simp add: UrlShortenerForm_init_def)
qed

text \<open>
  C2. A submission with an empty input is accepted only while the submit control is
  enabled; it issues no POST (the handler contains none and the requests in flight are
  what they were), stores the validation message, and the in-flight flag is not set.
  The stored message is the quoted sentence with its full stop.
\<close>

theorem empty_submit_fails_locally:
  assumes "ui_step s Submit = Some s'" and "longUrl s = []"
  shows "(\<forall>body. AxiosPost body \<notin> set (handleSubmit (longUrl s)))
       \<and> requests s' = requests s
       \<and> form.error s' = ''Please enter a URL to shorten'' @ ''.''
       \<and> \<not> form.loading s'"
  using assms by (auto simp: handleSubmit_def split: if_splits)

theorem empty_submit_fails_locally_witness:
  "ui_step (UrlShortenerForm_init None) Submit
     = Some ((UrlShortenerForm_init None)\<lparr>form.error := ''Please enter a URL to shorten.''\<rparr>)
   \<and> requests ((UrlShortenerForm_init None)\<lparr>form.error := ''Please enter a URL to shorten.''\<rparr>) = []
   \<and> \<not> form.loading ((UrlShortenerForm_init None)\<lparr>form.error := ''Please enter a URL to shorten.''\<rparr>)"
proof -
  have step: "ui_step (UrlShortenerForm_init None) Submit
     = Some ((UrlShortenerForm_init None)\<lparr>form.error := ''Please enter a URL to shorten.''\<rparr>)"
    by (simp add: UrlShortenerForm_init_def handleSubmit_def)
  have empty: "longUrl (UrlShortenerForm_init None) = []"
    by (simp add: UrlShortenerForm_init_def)
  from empty_submit_fails_locally [OF step empty] step show ?thesis
    by (simp add: UrlShortenerForm_init_def)
qed

text \<open>
  C3. From a reachable state, a submission of a non-empty input puts exactly one
  request in flight, carrying that input. Whatever happens before the answer (edits,
  clipboard callbacks, time passing), a response with a status from 200 to 299 and body
  \<open>d\<close> ends the flow with \<open>d\<close> stored as the result, no error, the in-flight flag
  cleared and nothing left in flight.
\<close>

theorem shorten_success:
  assumes "run_events (UrlShortenerForm_init c) es = Some s"
    and "longUrl s \<noteq> []"
    and "ui_step s Submit = Some s1"
    and "run_events s1 mid = Some s2"
    and "\<forall>e \<in> set mid. \<not> is_post_settled e"
    and "200 \<le> st" and "st < 300"
  shows "requests s2 = [longUrl s]
       \<and> (\<exists>s3. ui_step s2 (PostSettled 0 (Response st d)) = Some s3
             \<and> shortUrl s3 = d \<and> form.error s3 = []
             \<and> \<not> form.loading s3 \<and> requests s3 = [])"
proof -
  from submit_awaiting [OF assms(3) assms(2) reachable_inv [OF assms(1)]]
  have "awaiting (longUrl s) s1" .
  from awaiting_run [OF this assms(4) assms(5)]
  have aw: "awaiting (longUrl s) s2" .
  with assms(6,7) show ?thesis
    by (simp add: awaiting_def handleSubmit_settled_def)
qed

theorem shorten_success_witness:
  "run_events (UrlShortenerForm_init None)
     [Edit ''https://example.com'', Submit, Edit ''https://example.org'',
      PostSettled 0 (Response 200 (JObj [(''shortUrl'', JStr ''https://s/abc'')]))]
   = Some ((UrlShortenerForm_init None)
       \<lparr>longUrl := ''https://example.org'',
        shortUrl := JObj [(''shortUrl'', JStr ''https://s/abc'')]\<rparr>)"
proof -
  let ?i = "UrlShortenerForm_init None"
  let ?s = "?i\<lparr>longUrl := ''https://example.com''\<rparr>"
  let ?s1 = "?s\<lparr>form.loading := True, requests := [''https://example.com'']\<rparr>"
  let ?s2 = "?s1\<lparr>longUrl := ''https://example.org''\<rparr>"
  have a: "run_events ?i [Edit ''https://example.com''] = Some ?s"
    by simp
  have b: "longUrl ?s \<noteq> []"
    by simp
  have c: "ui_step ?s Submit = Some ?s1"
    by (simp add: UrlShortenerForm_init_def handleSubmit_def)
  have d: "run_events ?s1 [Edit ''https://example.org''] = Some ?s2"
    by simp
  have e: "\<forall>e \<in> set [Edit ''https://example.org'']. \<not> is_post_settled e"
    by simp
  have f: "(200::nat) \<le> 200" "(200::nat) < 300"
    by simp_all
  from shorten_success [OF a b c d e f,
      of "JObj [(''shortUrl'', JStr ''https://s/abc'')]"] a c d
  show ?thesis
    by (simp add: UrlShortenerForm_init_def handleSubmit_def handleSubmit_settled_def)
qed

text \<open>
  C4. In the same situation, when the request fails (no response, or a response whose
  status is outside 200 to 299, such as 500), the flow ends with the one fixed message
  stored as the error, no result, the in-flight flag cleared and nothing left in
  flight; the cause goes to the console only.
\<close>

theorem shorten_failure:
  assumes "run_events (UrlShortenerForm_init c) es = Some s"
    and "longUrl s \<noteq> []"
    and "ui_step s Submit = Some s1"
    and "run_events s1 mid = Some s2"
    and "\<forall>e \<in> set mid. \<not> is_post_settled e"
    and "out = NetworkFailure \<or> (\<exists>st d. out = Response st d \<and> \<not> (200 \<le> st \<and> st < 300))"
  shows "\<exists>s3. ui_step s2 (PostSettled 0 out) = Some s3
           \<and> form.error s3 = ''Failed to shorten URL. Please check the link and try again.''
           \<and> shortUrl s3 = JNull
           \<and> \<not> form.loading s3 \<and> requests s3 = []
           \<and> (\<exists>err. form.console s3 = form.console s2 @ [LogAxios err])"
proof -
  from submit_awaiting [OF assms(3) assms(2) reachable_inv [OF assms(1)]]
  have "awaiting (longUrl s) s1" .
  from awaiting_run [OF this assms(4) assms(5)]
  have aw: "awaiting (longUrl s) s2" .
  from assms(6) obtain err where "axios_settle out = Inl err"
    by auto
  with aw show ?thesis
    by (simp add: awaiting_def handleSubmit_settled_def)
qed

theorem shorten_failure_witness:
  "run_events (UrlShortenerForm_init None)
     [Edit ''https://example.com'', Submit, Elapse 100,
      PostSettled 0 (Response 500 (JStr ''Internal Server Error''))]
   = Some ((UrlShortenerForm_init None)
       \<lparr>longUrl := ''https://example.com'',
        form.error := ''Failed to shorten URL. Please check the link and try again.'',
        form.console := [LogAxios (BadStatus 500)]\<rparr>)"
proof -
  let ?i = "UrlShortenerForm_init None"
  let ?s = "?i\<lparr>longUrl := ''https://example.com''\<rparr>"
  let ?s1 = "?s\<lparr>form.loading := True, requests := [''https://example.com'']\<rparr>"
  let ?out = "Response 500 (JStr ''Internal Server Error'')"
  have a: "run_events ?i [Edit ''https://example.com''] = Some ?s"
    by simp
  have b: "longUrl ?s \<noteq> []"
    by simp
  have c: "ui_step ?s Submit = Some ?s1"
    by (simp add: UrlShortenerForm_init_def handleSubmit_def)
  have d: "run_events ?s1 [Elapse 100] = Some ?s1"
    by (simp add: ui_step_def UrlShortenerForm_init_def)
  have e: "\<forall>e \<in> set [Elapse 100]. \<not> is_post_settled e"
    by simp
  have f: "?out = NetworkFailure
           \<or> (\<exists>st d. ?out = Response st d \<and> \<not> (200 \<le> st \<and> st < 300))"
    by simp
  from shorten_failure [OF a b c d e f] a c d
  show ?thesis
    by (simp add: UrlShortenerForm_init_def handleSubmit_def handleSubmit_settled_def
          ui_step_def)
qed

text \<open>
  C9. No event other than the user's edit changes the input text: not the submission,
  whichever branch it takes, not the answer to the request, success or failure, not the
  clipboard callbacks and not the timers. An edit sets it to the edited value.
\<close>

theorem input_text_frame:
  assumes "ui_step s e = Some s'"
  shows "longUrl s' = (case e of Edit v \<Rightarrow> v | _ \<Rightarrow> longUrl s)"
proof (cases e)
  case Submit
  with assms show ?thesis
    by (auto simp: handleSubmit_def split: if_splits)
next
  case (PostSettled i out)
  with assms show ?thesis
    by (cases "axios_settle out") (auto simp: handleSubmit_settled_def split: if_splits)
next
  case (ClipSettled i ok)
  with assms show ?thesis
    by (auto simp: copyToClipboard_settled_def split: if_splits)
next
  case (Elapse d)
  with assms elapse_fields(1) [of s d s'] show ?thesis
    by simp
qed (use assms in \<open>auto simp: copyToClipboard_def split: if_splits\<close>)

theorem input_text_frame_witness:
  "ui_step ((UrlShortenerForm_init None)\<lparr>longUrl := ''https://example.com''\<rparr>) Submit
     = Some ((UrlShortenerForm_init None)
         \<lparr>longUrl := ''https://example.com'', form.loading := True,
          requests := [''https://example.com'']\<rparr>)
   \<and> longUrl ((UrlShortenerForm_init None)
         \<lparr>longUrl := ''https://example.com'', form.loading := True,
          requests := [''https://example.com'']\<rparr>) = ''https://example.com''"
proof -
  have step: "ui_step ((UrlShortenerForm_init None)\<lparr>longUrl := ''https://example.com''\<rparr>) Submit
     = Some ((UrlShortenerForm_init None)
         \<lparr>longUrl := ''https://example.com'', form.loading := True,
          requests := [''https://example.com'']\<rparr>)"
    by (simp add: UrlShortenerForm_init_def handleSubmit_def)
  from input_text_frame [OF step] step show ?thesis
    by simp
qed

subsection \<open>Copying the result\<close>

lemma remove_nth_snoc [simp]: "remove_nth (length xs) (xs @ [x]) = xs"
  by (simp add: remove_nth_def)

text \<open>
  C8. With a result that is an object whose \<open>shortUrl\<close> is a string \<open>u\<close>, the copy
  button is there; when its clipboard write succeeds the clipboard holds exactly \<open>u\<close>
  and the acknowledgment is \<open>Copied!\<close>; once 2000 ms have passed with nothing else
  happening the acknowledgment is empty again, and the clipboard still holds \<open>u\<close>.
\<close>

theorem copy_round_trip:
  assumes "shortUrl s = JObj kvs" and "map_of kvs ''shortUrl'' = Some (JStr u)"
  shows "\<exists>s1 s2 s3.
           ui_step s CopyClick = Some s1
         \<and> ui_step s1 (ClipSettled (length (writes s)) True) = Some s2
         \<and> clipboard s2 = Some (JStr u)
         \<and> copySuccess s2 = ''Copied!''
         \<and> ui_step s2 (Elapse 2000) = Some s3
         \<and> copySuccess s3 = []
         \<and> clipboard s3 = Some (JStr u)"
proof -
  let ?s1 = "run (copyToClipboard (js_prop (shortUrl s) ''shortUrl'')) s"
  let ?s2 = "run (copyToClipboard_settled True)
               (?s1\<lparr>clipboard := writes ?s1 ! length (writes s),
                     writes := remove_nth (length (writes s)) (writes ?s1)\<rparr>)"
  have w: "writes ?s1 = writes s @ [Some (JStr u)]"
    using assms by (simp add: copyToClipboard_def)
  have 1: "ui_step s CopyClick = Some ?s1"
    using assms by simp
  have 2: "ui_step ?s1 (ClipSettled (length (writes s)) True) = Some ?s2"
    by (simp add: w)
  have clip: "clipboard ?s2 = Some (JStr u)"
    by (simp add: w copyToClipboard_settled_def)
  have ack: "copySuccess ?s2 = ''Copied!''"
    by (simp add: copyToClipboard_settled_def)
  obtain s3 where 3: "ui_step ?s2 (Elapse 2000) = Some s3"
    by (simp add: ui_step_def)
  have "2000 \<in> set (timers ?s2)"
    by (simp add: copyToClipboard_settled_def)
  then have due: "filter (\<lambda>t. t \<le> 2000) (timers ?s2) \<noteq> []"
    by (auto simp: filter_empty_conv)
  from 3 due have gone: "copySuccess s3 = []"
    by (auto simp: ui_step_def fired_copySuccess)
  from 3 clip have kept: "clipboard s3 = Some (JStr u)"
    by (auto simp: ui_step_def fired_clipboard)
  from 1 2 clip ack 3 gone kept show ?thesis
    by blast
qed

theorem copy_round_trip_witness:
  "ui_step ((UrlShortenerForm_init None)
       \<lparr>shortUrl := JObj [(''shortUrl'', JStr ''https://s/abc'')]\<rparr>) CopyClick
     = Some ((UrlShortenerForm_init None)
         \<lparr>shortUrl := JObj [(''shortUrl'', JStr ''https://s/abc'')],
          writes := [Some (JStr ''https://s/abc'')]\<rparr>)
   \<and> ui_step ((UrlShortenerForm_init None)
         \<lparr>shortUrl := JObj [(''shortUrl'', JStr ''https://s/abc'')],
          writes := [Some (JStr ''https://s/abc'')]\<rparr>) (ClipSettled 0 True)
     = Some ((UrlShortenerForm_init None)
         \<lparr>shortUrl := JObj [(''shortUrl'', JStr ''https://s/abc'')],
          copySuccess := ''Copied!'',
          clipboard := Some (JStr ''https://s/abc''),
          timers := [2000]\<rparr>)
   \<and> ui_step ((UrlShortenerForm_init None)
         \<lparr>shortUrl := JObj [(''shortUrl'', JStr ''https://s/abc'')],
          copySuccess := ''Copied!'',
          clipboard := Some (JStr ''https://s/abc''),
          timers := [2000]\<rparr>) (Elapse 2000)
     = Some ((UrlShortenerForm_init None)
         \<lparr>shortUrl := JObj [(''shortUrl'', JStr ''https://s/abc'')],
          clipboard := Some (JStr ''https://s/abc'')\<rparr>)"
proof -
  let ?s = "(UrlShortenerForm_init None)
       \<lparr>shortUrl := JObj [(''shortUrl'', JStr ''https://s/abc'')]\<rparr>"
  have a: "shortUrl ?s = JObj [(''shortUrl'', JStr ''https://s/abc'')]"
    by simp
  have b: "map_of [(''shortUrl'', JStr ''https://s/abc'')] ''shortUrl''
           = Some (JStr ''https://s/abc'')"
    by simp
  from copy_round_trip [OF a b] show ?thesis
    by (simp add: UrlShortenerForm_init_def copyToClipboard_def ui_step_def
          copyToClipboard_settled_def timer_callback_def remove_nth_def)
qed

text \<open>
  C7. The callback for a failed clipboard write stores \<open>Failed to copy!\<close> and sets no
  timer, where the callback for a successful write sets one. After a result has been
  shown, a copy whose write fails leaves \<open>Failed to copy!\<close> in place when 2000 ms have
  passed, and after a further minute, with no timer pending.
\<close>

theorem failed_copy_stays:
  "(case run_events (UrlShortenerForm_init None)
       [Edit ''https://example.com'', Submit,
        PostSettled 0 (Response 200 (JObj [(''shortUrl'', JStr ''https://s/abc'')])),
        CopyClick, ClipSettled 0 False, Elapse 2000, Elapse 60000]
    of None \<Rightarrow> False
     | Some s \<Rightarrow> copySuccess s = ''Failed to copy!'' \<and> timers s = [])"
  by (simp add: UrlShortenerForm_init_def handleSubmit_def handleSubmit_settled_def
        copyToClipboard_def copyToClipboard_settled_def ui_step_def remove_nth_def)

section \<open>Properties of the listing flow\<close>

text \<open>
  C5. When the answer to the listing request is a response that axios resolves with
  (a status from 200 to 299) and whose body is not an array, the flow ends with the
  format message stored as the error (the quoted sentence with its full stop), the
  list still the empty array it was initialised with, and the page showing that
  message instead of the table.
\<close>

theorem listing_format_error:
  assumes "\<not> isArray d" and "200 \<le> st" and "st < 300"
  shows "\<exists>s'. admin_step AdminPage_mount (FetchSettled (Response st d)) = Some s'
           \<and> error s' = ''Received an invalid format from the server'' @ ''.''
           \<and> urls s' = JArr []
           \<and> \<not> loading s'
           \<and> AdminPage s' = Inr (ErrorText ''Received an invalid format from the server.'')"
  using assms by (simp add: AdminPage_mount_def fetchUrls_settled_def AdminPage_def)

theorem listing_format_error_witness:
  "admin_step AdminPage_mount (FetchSettled (Response 200 (JObj [(''urls'', JArr [])])))
     = Some (AdminPage_mount
         \<lparr>loading := False, error := ''Received an invalid format from the server.'',
          fetching := False\<rparr>)
   \<and> AdminPage (AdminPage_mount
         \<lparr>loading := False, error := ''Received an invalid format from the server.'',
          fetching := False\<rparr>)
     = Inr (ErrorText ''Received an invalid format from the server.'')"
proof -
  have a: "\<not> isArray (JObj [(''urls'', JArr [])])"
    by simp
  have b: "(200::nat) \<le> 200" "(200::nat) < 300"
    by simp_all
  from listing_format_error [OF a b] show ?thesis
    by (simp add: AdminPage_mount_def fetchUrls_settled_def)
qed







lemma admin_step_array:
  assumes "admin_step s e = Some s'"
  shows "urls s' = urls s \<or> isArray (urls s')"
proof (cases e)
  case (FetchSettled out)
  with assms show ?thesis
    by (cases "axios_settle out")
       (auto simp: fetchUrls_settled_def split: if_splits)
qed

lemma admin_run_array:
  assumes "isArray (urls s)" and "admin_run s es = Some s'"
  shows "isArray (urls s')"
  using assms
proof (induction es arbitrary: s)
  case Nil
  then show ?case by simp
next
  case (Cons e es)
  from Cons.prems(2) obtain s1 where
    s1: "admin_step s e = Some s1" and rest: "admin_run s1 es = Some s'"
    by (auto split: option.splits)
  from admin_step_array [OF s1] Cons.prems(1) have "isArray (urls s1)"
    by auto
  from Cons.IH [OF this rest] show ?case .
qed

lemma map_rows_error: "map_rows us = Inl e \<Longrightarrow> e = TypeError"
proof (induction us)
  case Nil
  then show ?case by simp
next
  case (Cons u us)
  then show ?case
    by (cases u) (auto split: sum.splits)
qed

lemma tbody_array: "isArray v \<Longrightarrow> tbody v \<noteq> Inl NotAnArray"
  by (cases v) (auto dest: map_rows_error)

text \<open>
  C10. The list starts as the empty array, and in every state the page reaches from
  its mount the list is an array, so the table body is never computed from anything
  else; a step either leaves the list as it is or stores a value that is an array.
\<close>

theorem urls_always_array:
  assumes "admin_run AdminPage_mount es = Some s"
  shows "urls AdminPage_mount = JArr []
       \<and> isArray (urls s)
       \<and> tbody (urls s) \<noteq> Inl NotAnArray
       \<and> AdminPage s \<noteq> Inl NotAnArray
       \<and> (\<forall>e s'. admin_step s e = Some s' \<longrightarrow> urls s' = urls s \<or> isArray (urls s'))"
proof -
  have "isArray (urls AdminPage_mount)"
    by (simp add: AdminPage_mount_def)
  from admin_run_array [OF this assms] have arr: "isArray (urls s)" .
  from tbody_array [OF arr] have body: "tbody (urls s) \<noteq> Inl NotAnArray" .
  then have "AdminPage s \<noteq> Inl NotAnArray"
    by (auto simp: AdminPage_def render_rows_def split: sum.splits if_splits)
  moreover have "urls AdminPage_mount = JArr []"
    by (simp add: AdminPage_mount_def)
  ultimately show ?thesis
    using arr body admin_step_array by blast
qed

theorem urls_always_array_witness:
  "admin_run AdminPage_mount
     [FetchSettled (Response 200 (JArr [JObj [(''_id'', JStr ''1''),
        (''originalUrl'', JStr ''https://example.com''),
        (''shortUrl'', JStr ''https://s/abc''), (''clicks'', JNum 3)]]))]
   = Some (AdminPage_mount
       \<lparr>urls := JArr [JObj [(''_id'', JStr ''1''),
          (''originalUrl'', JStr ''https://example.com''),
          (''shortUrl'', JStr ''https://s/abc''), (''clicks'', JNum 3)]],
        loading := False, fetching := False\<rparr>)
   \<and> isArray (urls (AdminPage_mount
       \<lparr>urls := JArr [JObj [(''_id'', JStr ''1''),
          (''originalUrl'', JStr ''https://example.com''),
          (''shortUrl'', JStr ''https://s/abc''), (''clicks'', JNum 3)]],
        loading := False, fetching := False\<rparr>))"
proof -
  have r: "admin_run AdminPage_mount
     [FetchSettled (Response 200 (JArr [JObj [(''_id'', JStr ''1''),
        (''originalUrl'', JStr ''https://example.com''),
        (''shortUrl'', JStr ''https://s/abc''), (''clicks'', JNum 3)]]))]
   = Some (AdminPage_mount
       \<lparr>urls := JArr [JObj [(''_id'', JStr ''1''),
          (''originalUrl'', JStr ''https://example.com''),
          (''shortUrl'', JStr ''https://s/abc''), (''clicks'', JNum 3)]],
        loading := False, fetching := False\<rparr>)"
    by (simp add: AdminPage_mount_def fetchUrls_settled_def)
  from urls_always_array [OF r] r show ?thesis
    by simp
qed

end
